theory Spec2Isabelle
  imports Complex_Main "HOL-Library.Sublist"
begin

section \<open>Text splitters of \<open>langchain/src/text_splitter.ts\<close>\<close>

text \<open>
  The development embeds the four splitters of the file: the shared constructor and merge
  engine of \<open>TextSplitter\<close>, \<open>CharacterTextSplitter\<close>, \<open>RecursiveCharacterTextSplitter\<close>
  and the window loop of \<open>TokenTextSplitter\<close>.

  JavaScript numbers are modelled as \<open>int\<close> (the configuration holds integers), strings
  as \<open>string\<close> with one \<open>char\<close> per code unit, so that \<open>length\<close> is \<open>.length\<close>; the
  texts covered are those whose code units are below 256.
  The value \<open>undefined\<close> of an optional field or of a read past the end of an array is
  \<open>None\<close>; an exception is a value of type \<open>error\<close>. The document assembly
  (\<open>createDocuments\<close>, \<open>splitDocuments\<close>) and \<open>MarkdownTextSplitter\<close>, a recursive
  splitter with a fixed separator list, are not part of the development.
\<close>

subsection \<open>Errors\<close>

datatype error =
    ChunkOverlapNotBelowChunkSize
      \<comment> \<open>\<open>throw new Error("Cannot have chunkOverlap >= chunkSize")\<close>\<close>
  | FrontOfEmptyWindow
      \<comment> \<open>\<open>TypeError\<close>: \<open>currentDoc[0]\<close> is \<open>undefined\<close>, its \<open>.length\<close> is read\<close>
  | UndefinedSeparator
      \<comment> \<open>\<open>TypeError\<close>: \<open>separator\<close> is \<open>undefined\<close>, its \<open>.length\<close> is read\<close>

subsection \<open>The string operations of the host language\<close>

text \<open>\<open>String.prototype.trim\<close> removes white space and line terminators at both ends:
  of the code units below 256 these are TAB, LF, VT, FF, CR, SPACE and NBSP.\<close>

definition is_js_whitespace :: "char \<Rightarrow> bool" where
  "is_js_whitespace c =
     (c = CHR 0x09 \<or> c = CHR 0x0A \<or> c = CHR 0x0B \<or> c = CHR 0x0C \<or> c = CHR 0x0D
      \<or> c = CHR 0x20 \<or> c = CHR 0xA0)"

definition js_trim :: "string \<Rightarrow> string" where
  "js_trim s = rev (dropWhile is_js_whitespace (rev (dropWhile is_js_whitespace s)))"

text \<open>\<open>Array.prototype.join\<close> on an array of strings; an \<open>undefined\<close> separator is
  the comma.\<close>

fun join_with :: "string \<Rightarrow> string list \<Rightarrow> string" where
  "join_with sep [] = []"
| "join_with sep [x] = x"
| "join_with sep (x # y # ys) = x @ sep @ join_with sep (y # ys)"

definition js_join :: "string list \<Rightarrow> string option \<Rightarrow> string" where
  "js_join xs separator =
     join_with (case separator of None \<Rightarrow> '','' | Some sep \<Rightarrow> sep) xs"

text \<open>\<open>text.includes(s)\<close>: \<open>s\<close> occurs in \<open>text\<close> as a contiguous run.\<close>

fun js_includes :: "string \<Rightarrow> string \<Rightarrow> bool" where
  "js_includes [] s = (s = [])"
| "js_includes (c # cs) s = (take (length s) (c # cs) = s \<or> js_includes cs s)"

text \<open>\<open>text.split(sep)\<close> for a non-empty \<open>sep\<close>: the text is scanned from the left, every
  occurrence found ends the current piece and is skipped; the pieces do not contain the
  separator. \<open>text.split("")\<close> is the list of the code units.\<close>

function js_split_on :: "string \<Rightarrow> string \<Rightarrow> string \<Rightarrow> string list" where
  "js_split_on sep piece [] = [piece]"
| "js_split_on sep piece (c # cs) =
     (if sep \<noteq> [] \<and> take (length sep) (c # cs) = sep
      then piece # js_split_on sep [] (drop (length sep) (c # cs))
      else js_split_on sep (piece @ [c]) cs)"
  by pat_completeness auto
termination
  by (relation "measure (\<lambda>(sep, piece, s). length s)") auto

definition js_split :: "string \<Rightarrow> string \<Rightarrow> string list" where
  "js_split text sep = (if sep = [] then map (\<lambda>c. [c]) text else js_split_on sep [] text)"

text \<open>\<open>Array.prototype.slice(start, end)\<close>, with its treatment of negative and of too
  large indices.\<close>

definition js_slice :: "'a list \<Rightarrow> int \<Rightarrow> int \<Rightarrow> 'a list" where
  "js_slice xs start fin =
     (let len = int (length xs);
          k = (if start < 0 then max (len + start) 0 else min start len);
          final = (if fin < 0 then max (len + fin) 0 else min fin len)
      in take (nat (final - k)) (drop (nat k) xs))"

subsection \<open>\<open>TextSplitter\<close>: configuration and constructor\<close>

record TextSplitter =
  chunkSize :: int
  chunkOverlap :: int

text \<open>\<open>fields?: Partial<TextSplitterParams>\<close>: the object and each of its fields may be
  missing.\<close>

record TextSplitterParams =
  chunkSize_field :: "int option"
  chunkOverlap_field :: "int option"

definition field_or :: "'p option \<Rightarrow> ('p \<Rightarrow> 'v option) \<Rightarrow> 'v \<Rightarrow> 'v" where
  \<comment> \<open>\<open>fields?.f ?? dflt\<close>\<close>
  "field_or params f dflt =
     (case params of None \<Rightarrow> dflt | Some p \<Rightarrow> (case f p of None \<Rightarrow> dflt | Some v \<Rightarrow> v))"

definition TextSplitter_constructor ::
  "'a TextSplitterParams_scheme option \<Rightarrow> error + TextSplitter" where
  "TextSplitter_constructor params =
     (let cs = field_or params chunkSize_field 1000;
          co = field_or params chunkOverlap_field 200
      in if co \<ge> cs then Inl ChunkOverlapNotBelowChunkSize
         else Inr \<lparr>chunkSize = cs, chunkOverlap = co\<rparr>)"

subsection \<open>\<open>TextSplitter.joinDocs\<close> and \<open>TextSplitter.mergeSplits\<close>\<close>

definition joinDocs :: "string list \<Rightarrow> string option \<Rightarrow> string option" where
  "joinDocs ds separator =
     (let text = js_trim (js_join ds separator) in if text = [] then None else Some text)"

text \<open>The local variables of \<open>mergeSplits\<close>; \<open>warnings\<close> collects the totals reported by
  \<open>console.warn\<close>.\<close>

record merge_state =
  docs :: "string list"
  currentDoc :: "string list"
  total :: int
  warnings :: "int list"

definition separator_length :: "string option \<Rightarrow> error + int" where
  "separator_length separator =
     (case separator of None \<Rightarrow> Inl UndefinedSeparator | Some sep \<Rightarrow> Inr (int (length sep)))"

text \<open>The \<open>while\<close> loop that pops the front of the window (lines 140 to 146). Reading
  \<open>currentDoc[0].length\<close> on an empty window throws.\<close>

fun evict ::
  "'a TextSplitter_scheme \<Rightarrow> int \<Rightarrow> int \<Rightarrow> string list \<Rightarrow> error + (int \<times> string list)" where
  "evict ts len tot [] =
     (if tot > chunkOverlap ts \<or> (tot + len > chunkSize ts \<and> tot > 0)
      then Inl FrontOfEmptyWindow else Inr (tot, []))"
| "evict ts len tot (d0 # rest) =
     (if tot > chunkOverlap ts \<or> (tot + len > chunkSize ts \<and> tot > 0)
      then evict ts len (tot - int (length d0)) rest else Inr (tot, d0 # rest))"

definition push_unit :: "merge_state \<Rightarrow> string \<Rightarrow> merge_state" where
  \<comment> \<open>\<open>currentDoc.push(d); total += _len\<close>\<close>
  "push_unit st d = st\<lparr>currentDoc := currentDoc st @ [d], total := total st + int (length d)\<rparr>"

definition flush_window :: "merge_state \<Rightarrow> string option \<Rightarrow> merge_state" where
  \<comment> \<open>\<open>doc = joinDocs(currentDoc, separator); if (doc !== null) docs.push(doc)\<close>\<close>
  "flush_window st separator =
     (case joinDocs (currentDoc st) separator of
        None \<Rightarrow> st
      | Some doc \<Rightarrow> st\<lparr>docs := docs st @ [doc]\<rparr>)"

definition warn_oversized :: "'a TextSplitter_scheme \<Rightarrow> merge_state \<Rightarrow> merge_state" where
  \<comment> \<open>\<open>if (total > this.chunkSize) console.warn(...)\<close>\<close>
  "warn_oversized ts st =
     (if total st > chunkSize ts then st\<lparr>warnings := warnings st @ [total st]\<rparr> else st)"

text \<open>One iteration of \<open>for (const d of splits)\<close>.\<close>

definition merge_step ::
  "'a TextSplitter_scheme \<Rightarrow> string option \<Rightarrow> merge_state \<Rightarrow> string \<Rightarrow> error + merge_state" where
  "merge_step ts separator st d =
     (let len = int (length d) in
      case (if currentDoc st \<noteq> [] then separator_length separator else Inr 0) of
        Inl e \<Rightarrow> Inl e
      | Inr sl \<Rightarrow>
          if total st + len + sl > chunkSize ts then
            (let st1 = warn_oversized ts st
             in if currentDoc st1 \<noteq> [] then
                  (let st2 = flush_window st1 separator
                   in case evict ts len (total st2) (currentDoc st2) of
                        Inl e \<Rightarrow> Inl e
                      | Inr (tot, window) \<Rightarrow>
                          Inr (push_unit (st2\<lparr>currentDoc := window, total := tot\<rparr>) d))
                else Inr (push_unit st1 d))
          else Inr (push_unit st d))"

fun merge_loop ::
  "'a TextSplitter_scheme \<Rightarrow> string option \<Rightarrow> merge_state \<Rightarrow> string list \<Rightarrow> error + merge_state"
  where
  "merge_loop ts separator st [] = Inr st"
| "merge_loop ts separator st (d # ds) =
     (case merge_step ts separator st d of
        Inl e \<Rightarrow> Inl e
      | Inr st' \<Rightarrow> merge_loop ts separator st' ds)"

definition merge_init :: merge_state where
  "merge_init = \<lparr>docs = [], currentDoc = [], total = 0, warnings = []\<rparr>"

definition mergeSplits ::
  "'a TextSplitter_scheme \<Rightarrow> string list \<Rightarrow> string option \<Rightarrow> error + string list" where
  "mergeSplits ts splits separator =
     (case merge_loop ts separator merge_init splits of
        Inl e \<Rightarrow> Inl e
      | Inr st \<Rightarrow> Inr (docs (flush_window st separator)))"

subsection \<open>\<open>RecursiveCharacterTextSplitter\<close>\<close>

record RecursiveCharacterTextSplitter = TextSplitter +
  separators :: "string list"

record RecursiveCharacterTextSplitterParams = TextSplitterParams +
  separators_field :: "string list option"

definition default_separators :: "string list" where
  "default_separators = [[CHR 0x0A, CHR 0x0A], [CHR 0x0A], '' '', '''']"

definition RecursiveCharacterTextSplitter_constructor ::
  "RecursiveCharacterTextSplitterParams option \<Rightarrow> error + RecursiveCharacterTextSplitter" where
  "RecursiveCharacterTextSplitter_constructor params =
     (case TextSplitter_constructor params of
        Inl e \<Rightarrow> Inl e
      | Inr base \<Rightarrow>
          Inr \<lparr>chunkSize = chunkSize base, chunkOverlap = chunkOverlap base,
               separators = field_or params separators_field default_separators\<rparr>)"

text \<open>Lines 207 to 217: \<open>separator\<close> starts as \<open>separators[separators.length - 1]\<close>, which is
  \<open>undefined\<close> for the empty array, and the loop over the list stops at the first entry that
  is empty or occurs in the text.\<close>

definition last_entry :: "string list \<Rightarrow> string option" where
  "last_entry seps = (if seps = [] then None else Some (last seps))"

fun separator_loop :: "string \<Rightarrow> string option \<Rightarrow> string list \<Rightarrow> string option" where
  "separator_loop text separator [] = separator"
| "separator_loop text separator (s # ss) =
     (if s = [] then Some s
      else if js_includes text s then Some s
      else separator_loop text separator ss)"

definition select_separator :: "string list \<Rightarrow> string \<Rightarrow> string option" where
  "select_separator seps text = separator_loop text (last_entry seps) seps"

definition split_by :: "string \<Rightarrow> string option \<Rightarrow> string list" where
  \<comment> \<open>\<open>if (separator) splits = text.split(separator) else splits = text.split("")\<close>\<close>
  "split_by text separator =
     (case separator of
        None \<Rightarrow> js_split text []
      | Some sep \<Rightarrow> if sep \<noteq> [] then js_split text sep else js_split text [])"

definition merge_good ::
  "'a TextSplitter_scheme \<Rightarrow> string option \<Rightarrow> string list \<Rightarrow> string list \<Rightarrow> error + string list"
  where
  \<comment> \<open>\<open>if (goodSplits.length) finalChunks.push(...this.mergeSplits(goodSplits, separator))\<close>\<close>
  "merge_good ts separator goodSplits finalChunks =
     (if goodSplits \<noteq> [] then
        (case mergeSplits ts goodSplits separator of
           Inl e \<Rightarrow> Inl e
         | Inr mergedText \<Rightarrow> Inr (finalChunks @ mergedText))
      else Inr finalChunks)"

text \<open>The loop over the raw units (lines 229 to 246). \<open>recur\<close> is the recursive call of
  \<open>splitText\<close>; \<open>None\<close> says that it does not return.\<close>

fun split_units ::
  "(string \<Rightarrow> (error + string list) option) \<Rightarrow> 'a TextSplitter_scheme \<Rightarrow> string option \<Rightarrow>
   string list \<Rightarrow> string list \<Rightarrow> string list \<Rightarrow> (error + string list) option" where
  "split_units recur ts separator [] goodSplits finalChunks =
     Some (merge_good ts separator goodSplits finalChunks)"
| "split_units recur ts separator (s # ss) goodSplits finalChunks =
     (if int (length s) < chunkSize ts
      then split_units recur ts separator ss (goodSplits @ [s]) finalChunks
      else
        (case merge_good ts separator goodSplits finalChunks of
           Inl e \<Rightarrow> Some (Inl e)
         | Inr finalChunks1 \<Rightarrow>
             (case recur s of
                None \<Rightarrow> None
              | Some (Inl e) \<Rightarrow> Some (Inl e)
              | Some (Inr otherInfo) \<Rightarrow>
                  split_units recur ts separator ss [] (finalChunks1 @ otherInfo))))"

text \<open>\<open>splitText\<close> calls itself on every unit that is not shorter than \<open>chunkSize\<close>, and
  nothing in the code bounds the nesting. The first argument is the number of nested
  activations allowed: \<open>splitText_depth n\<close> is \<open>None\<close> when the call needs more than \<open>n\<close>
  of them, so a call that never returns is \<open>None\<close> for every \<open>n\<close>.\<close>

fun splitText_depth ::
  "nat \<Rightarrow> RecursiveCharacterTextSplitter \<Rightarrow> string \<Rightarrow> (error + string list) option" where
  "splitText_depth 0 ts text = None"
| "splitText_depth (Suc n) ts text =
     (let separator = select_separator (separators ts) text;
          splits = split_by text separator
      in split_units (\<lambda>s. splitText_depth n ts s) ts separator splits [] [])"

subsection \<open>\<open>CharacterTextSplitter\<close>\<close>

record CharacterTextSplitter = TextSplitter +
  separator :: string

record CharacterTextSplitterParams = TextSplitterParams +
  separator_field :: "string option"

definition CharacterTextSplitter_constructor ::
  "CharacterTextSplitterParams option \<Rightarrow> error + CharacterTextSplitter" where
  "CharacterTextSplitter_constructor params =
     (case TextSplitter_constructor params of
        Inl e \<Rightarrow> Inl e
      | Inr base \<Rightarrow>
          Inr \<lparr>chunkSize = chunkSize base, chunkOverlap = chunkOverlap base,
               separator = field_or params separator_field [CHR 0x0A, CHR 0x0A]\<rparr>)"

definition CharacterTextSplitter_splitText ::
  "CharacterTextSplitter \<Rightarrow> string \<Rightarrow> error + string list" where
  "CharacterTextSplitter_splitText ts text =
     (let splits = (if separator ts \<noteq> [] then js_split text (separator ts)
                    else js_split text [])
      in mergeSplits ts splits (Some (separator ts)))"

subsection \<open>\<open>TokenTextSplitter\<close>\<close>

datatype special = All | Listed "string list"

record TokenTextSplitter = TextSplitter +
  encodingName :: string
  allowedSpecial :: special
  disallowedSpecial :: special

record TokenTextSplitterParams = TextSplitterParams +
  encodingName_field :: "string option"
  allowedSpecial_field :: "special option"
  disallowedSpecial_field :: "special option"

definition TokenTextSplitter_constructor ::
  "TokenTextSplitterParams option \<Rightarrow> error + TokenTextSplitter" where
  "TokenTextSplitter_constructor params =
     (case TextSplitter_constructor params of
        Inl e \<Rightarrow> Inl e
      | Inr base \<Rightarrow>
          Inr \<lparr>chunkSize = chunkSize base, chunkOverlap = chunkOverlap base,
               encodingName = field_or params encodingName_field ''gpt2'',
               allowedSpecial = field_or params allowedSpecial_field (Listed []),
               disallowedSpecial = field_or params disallowedSpecial_field All\<rparr>)"

text \<open>The tokenizer is a collaborator outside the file: \<open>getEncoding\<close> maps an encoding name
  to its \<open>encode\<close> and \<open>decode\<close>. Both are parameters here. The splitter keeps the tokenizer
  it obtained first; as \<open>getEncoding\<close> is a function of the name, this cache is not
  observable and is left out.\<close>

record 'tok Tiktoken =
  encode :: "string \<Rightarrow> special \<Rightarrow> special \<Rightarrow> 'tok list"
  decode :: "'tok list \<Rightarrow> string"

text \<open>The \<open>while\<close> loop of lines 296 to 302. It does not end when
  \<open>chunkSize - chunkOverlap \<le> 0\<close>, hence the option type: \<open>None\<close> is a loop that runs
  forever.\<close>

partial_function (option) token_while ::
  "'a TextSplitter_scheme \<Rightarrow> ('tok list \<Rightarrow> string) \<Rightarrow> 'tok list \<Rightarrow> int \<Rightarrow> int \<Rightarrow> 'tok list \<Rightarrow>
   string list \<Rightarrow> string list option" where
  "token_while ts dec input_ids start_idx cur_idx chunk_ids splits =
     (if start_idx < int (length input_ids) then
        (let splits1 = splits @ [dec chunk_ids];
             start_idx1 = start_idx + (chunkSize ts - chunkOverlap ts);
             cur_idx1 = min (start_idx1 + chunkSize ts) (int (length input_ids));
             chunk_ids1 = js_slice input_ids start_idx1 cur_idx1
         in token_while ts dec input_ids start_idx1 cur_idx1 chunk_ids1 splits1)
      else Some splits)"

declare token_while.simps [code]

definition token_windows ::
  "'a TextSplitter_scheme \<Rightarrow> ('tok list \<Rightarrow> string) \<Rightarrow> 'tok list \<Rightarrow> string list option" where
  \<comment> \<open>lines 284 and 292 to 304, on the encoded text\<close>
  "token_windows ts dec input_ids =
     (let start_idx = 0;
          cur_idx = min (start_idx + chunkSize ts) (int (length input_ids));
          chunk_ids = js_slice input_ids start_idx cur_idx
      in token_while ts dec input_ids start_idx cur_idx chunk_ids [])"

definition TokenTextSplitter_splitText ::
  "(string \<Rightarrow> 'tok Tiktoken) \<Rightarrow> TokenTextSplitter \<Rightarrow> string \<Rightarrow> string list option" where
  "TokenTextSplitter_splitText getEncoding ts text =
     (let tokenizer = getEncoding (encodingName ts);
          input_ids = encode tokenizer text (allowedSpecial ts) (disallowedSpecial ts)
      in token_windows ts (decode tokenizer) input_ids)"

subsection \<open>Vocabulary of the properties\<close>

text \<open>The sum of the lengths of the units of a window.\<close>

definition units_length :: "string list \<Rightarrow> int" where
  "units_length w = (\<Sum>d\<leftarrow>w. int (length d))"

text \<open>The running total as the specification words it: the lengths of the units of the
  window together with the separators between them, one for every unit after the first.
  For a non-empty window this is the length of its join.\<close>

definition joined_length :: "string \<Rightarrow> string list \<Rightarrow> int" where
  "joined_length sep w = units_length w + (int (length w) - 1) * int (length sep)"

text \<open>A chunk over a sequence of units: a non-empty string that is the trimmed join of a
  contiguous run of the units.\<close>

definition chunk_of :: "string \<Rightarrow> string list \<Rightarrow> string \<Rightarrow> bool" where
  "chunk_of sep units c =
     (c \<noteq> [] \<and> (\<exists>run. sublist run units \<and> c = js_trim (js_join run (Some sep))))"

text \<open>The window \<open>[a, b)\<close> of a token sequence: its elements at the indices from \<open>a\<close> up to,
  not including, \<open>b\<close>.\<close>

definition window :: "'a list \<Rightarrow> int \<Rightarrow> int \<Rightarrow> 'a list" where
  "window xs a b = map (\<lambda>i. xs ! i) [nat a..<nat b]"

text \<open>How many of the starts \<open>0\<close>, \<open>step\<close>, \<open>2 * step\<close>, ... are below \<open>d\<close>.\<close>

definition steps_below :: "int \<Rightarrow> int \<Rightarrow> nat" where
  "steps_below d step = nat (- ((- d) div step))"

text \<open>The number of windows as the specification states it, for \<open>n\<close> tokens.\<close>

definition claimed_window_count :: "int \<Rightarrow> int \<Rightarrow> int \<Rightarrow> int" where
  "claimed_window_count n cs co = \<lceil>real_of_int (n - co) / real_of_int (cs - co)\<rceil>"

text \<open>A tokenizer for the examples: one token per code unit, whatever the encoding name.\<close>

definition code_unit_tokenizer :: "string \<Rightarrow> nat Tiktoken" where
  "code_unit_tokenizer name =
     \<lparr>encode = (\<lambda>t allowed disallowed. map of_char t), decode = map char_of\<rparr>"

text \<open>The entries that the loop over the separators passes by: not empty and not in the
  text.\<close>

definition unmatched :: "string \<Rightarrow> string \<Rightarrow> bool" where
  "unmatched t s = (s \<noteq> [] \<and> \<not> js_includes t s)"

section \<open>Properties\<close>

subsection \<open>The constructor\<close>

lemma TextSplitter_constructor_cases:
  "TextSplitter_constructor params =
     (if field_or params chunkOverlap_field 200 \<ge> field_or params chunkSize_field 1000
      then Inl ChunkOverlapNotBelowChunkSize
      else Inr \<lparr>chunkSize = field_or params chunkSize_field 1000,
                chunkOverlap = field_or params chunkOverlap_field 200\<rparr>)"
  by (simp add: TextSplitter_constructor_def Let_def)

subsection \<open>Which errors the split operations can raise\<close>

lemma evict_error: "evict ts len tot w = Inl e \<Longrightarrow> e = FrontOfEmptyWindow"
  by (induction w arbitrary: tot) (auto split: if_splits)

lemma merge_step_error:
  "merge_step ts sep st d = Inl e \<Longrightarrow> e = FrontOfEmptyWindow \<or> e = UndefinedSeparator"
  by (auto simp: merge_step_def Let_def separator_length_def
      split: if_splits sum.splits option.splits dest: evict_error)

lemma merge_loop_error:
  "merge_loop ts sep st ds = Inl e \<Longrightarrow> e = FrontOfEmptyWindow \<or> e = UndefinedSeparator"
  by (induction ds arbitrary: st) (auto split: sum.splits dest: merge_step_error)

lemma mergeSplits_error:
  "mergeSplits ts ds sep = Inl e \<Longrightarrow> e = FrontOfEmptyWindow \<or> e = UndefinedSeparator"
  by (auto simp: mergeSplits_def split: sum.splits dest: merge_loop_error)

lemma merge_good_error:
  "merge_good ts sep good final = Inl e \<Longrightarrow> e = FrontOfEmptyWindow \<or> e = UndefinedSeparator"
  by (auto simp: merge_good_def split: if_splits sum.splits dest: mergeSplits_error)

lemma split_units_error:
  assumes "\<And>s e. recur s = Some (Inl e) \<Longrightarrow> e = FrontOfEmptyWindow \<or> e = UndefinedSeparator"
  shows "split_units recur ts sep ss good final = Some (Inl e)
         \<Longrightarrow> e = FrontOfEmptyWindow \<or> e = UndefinedSeparator"
proof (induction ss arbitrary: good final)
  case Nil
  then show ?case by (auto dest: merge_good_error)
next
  case (Cons s ss)
  then show ?case
    by (auto split: if_splits sum.splits option.splits dest: merge_good_error assms)
qed

lemma splitText_depth_error:
  "splitText_depth n ts t = Some (Inl e) \<Longrightarrow> e = FrontOfEmptyWindow \<or> e = UndefinedSeparator"
proof (induction n arbitrary: t e)
  case 0
  then show ?case by simp
next
  case (Suc n)
  from Suc.prems show ?case
    by (simp add: Let_def) (erule split_units_error [rotated], erule Suc.IH)
qed

text \<open>
  Claim C1. The constructor of \<open>TextSplitter\<close> raises its configuration error exactly when
  the effective \<open>chunkOverlap\<close> (the given one, or 200) is not below the effective
  \<open>chunkSize\<close> (the given one, or 1000), and otherwise returns the splitter with these two
  values. The constructors of the three subclasses fail exactly when the base constructor
  does. The error belongs to construction: no merge and no split operation raises it.
\<close>

theorem constructor_guard:
  "((TextSplitter_constructor params = Inl ChunkOverlapNotBelowChunkSize)
      = (field_or params chunkOverlap_field 200 \<ge> field_or params chunkSize_field 1000))
   \<and> ((TextSplitter_constructor params
         = Inr \<lparr>chunkSize = field_or params chunkSize_field 1000,
                 chunkOverlap = field_or params chunkOverlap_field 200\<rparr>)
      = (field_or params chunkOverlap_field 200 < field_or params chunkSize_field 1000))
   \<and> isl (CharacterTextSplitter_constructor cparams) = isl (TextSplitter_constructor cparams)
   \<and> isl (RecursiveCharacterTextSplitter_constructor rparams)
       = isl (TextSplitter_constructor rparams)
   \<and> isl (TokenTextSplitter_constructor tparams) = isl (TextSplitter_constructor tparams)
   \<and> mergeSplits ts ds sep \<noteq> Inl ChunkOverlapNotBelowChunkSize
   \<and> CharacterTextSplitter_splitText cts text \<noteq> Inl ChunkOverlapNotBelowChunkSize
   \<and> splitText_depth n rts text \<noteq> Some (Inl ChunkOverlapNotBelowChunkSize)"
proof (intro conjI)
  show "(TextSplitter_constructor params = Inl ChunkOverlapNotBelowChunkSize)
      = (field_or params chunkOverlap_field 200 \<ge> field_or params chunkSize_field 1000)"
    by (simp add: TextSplitter_constructor_cases)
  show "(TextSplitter_constructor params
         = Inr \<lparr>chunkSize = field_or params chunkSize_field 1000,
                 chunkOverlap = field_or params chunkOverlap_field 200\<rparr>)
      = (field_or params chunkOverlap_field 200 < field_or params chunkSize_field 1000)"
    by (auto simp add: TextSplitter_constructor_cases)
  show "isl (CharacterTextSplitter_constructor cparams) = isl (TextSplitter_constructor cparams)"
    by (simp add: CharacterTextSplitter_constructor_def split: sum.splits)
  show "isl (RecursiveCharacterTextSplitter_constructor rparams)
       = isl (TextSplitter_constructor rparams)"
    by (simp add: RecursiveCharacterTextSplitter_constructor_def split: sum.splits)
  show "isl (TokenTextSplitter_constructor tparams) = isl (TextSplitter_constructor tparams)"
    by (simp add: TokenTextSplitter_constructor_def split: sum.splits)
  show "mergeSplits ts ds sep \<noteq> Inl ChunkOverlapNotBelowChunkSize"
    using mergeSplits_error by blast
  show "CharacterTextSplitter_splitText cts text \<noteq> Inl ChunkOverlapNotBelowChunkSize"
    using mergeSplits_error by (auto simp: CharacterTextSplitter_splitText_def Let_def)
  show "splitText_depth n rts text \<noteq> Some (Inl ChunkOverlapNotBelowChunkSize)"
    using splitText_depth_error by blast
qed

subsection \<open>The fixed-separator example\<close>

text \<open>
  Claim C9. With \<open>chunkSize = 10\<close>, \<open>chunkOverlap = 0\<close> and the separator \<open>" "\<close>, the
  fixed-separator splitter turns \<open>"aaaa bbbb cccc dddd"\<close> into the two chunks
  \<open>"aaaa bbbb"\<close> and \<open>"cccc dddd"\<close>.
\<close>

theorem fixed_separator_example:
  "CharacterTextSplitter_splitText \<lparr>chunkSize = 10, chunkOverlap = 0, separator = '' ''\<rparr>
     ''aaaa bbbb cccc dddd'' = Inr [''aaaa bbbb'', ''cccc dddd'']"
  by code_simp

subsection \<open>The running total of the merge engine\<close>

lemma units_length_simps [simp]:
  "units_length [] = 0"
  "units_length (d # w) = int (length d) + units_length w"
  "units_length (w @ v) = units_length w + units_length v"
  by (simp_all add: units_length_def)

lemma units_length_nonneg: "0 \<le> units_length w"
  by (induction w) auto

lemma evict_keeps_total:
  "evict ts len (units_length w) w = Inr (tot', w') \<Longrightarrow> tot' = units_length w' \<and> suffix w' w"
proof (induction w)
  case Nil
  then show ?case by (auto split: if_splits)
next
  case (Cons d0 rest)
  show ?case
  proof (cases "units_length (d0 # rest) > chunkOverlap ts
                \<or> (units_length (d0 # rest) + len > chunkSize ts \<and> units_length (d0 # rest) > 0)")
    case True
    with Cons.prems have "evict ts len (units_length rest) rest = Inr (tot', w')"
      by (simp split: if_splits)
    with Cons.IH show ?thesis by (auto simp: suffix_Cons)
  next
    case False
    with Cons.prems show ?thesis by (auto split: if_splits)
  qed
qed

lemma evict_returns:
  "0 \<le> chunkOverlap ts \<Longrightarrow> \<exists>r. evict ts len (units_length w) w = Inr r"
proof (induction w)
  case Nil
  then show ?case by simp
next
  case (Cons d0 rest)
  then show ?case by (cases "units_length (d0 # rest) > chunkOverlap ts
      \<or> (units_length (d0 # rest) + len > chunkSize ts \<and> units_length (d0 # rest) > 0)") auto
qed

lemma warn_oversized_fields [simp]:
  "currentDoc (warn_oversized ts st) = currentDoc st"
  "total (warn_oversized ts st) = total st"
  "docs (warn_oversized ts st) = docs st"
  by (simp_all add: warn_oversized_def)

lemma flush_window_fields [simp]:
  "currentDoc (flush_window st sep) = currentDoc st"
  "total (flush_window st sep) = total st"
  by (simp_all add: flush_window_def split: option.splits)

lemma merge_step_keeps_total:
  assumes "total st = units_length (currentDoc st)" and "merge_step ts sep st d = Inr st'"
  shows "total st' = units_length (currentDoc st')"
proof -
  have push: "total (push_unit s d) = units_length (currentDoc (push_unit s d))"
    if "total s = units_length (currentDoc s)" for s
    using that by (simp add: push_unit_def)
  from assms show ?thesis
    by (auto simp: merge_step_def Let_def push_unit_def
        split: if_splits sum.splits prod.splits dest!: evict_keeps_total)
qed

lemma merge_loop_keeps_total:
  "total st = units_length (currentDoc st) \<Longrightarrow> merge_loop ts sep st ds = Inr st'
   \<Longrightarrow> total st' = units_length (currentDoc st')"
proof (induction ds arbitrary: st)
  case Nil
  then show ?case by simp
next
  case (Cons d ds)
  then show ?case by (auto split: sum.splits dest: merge_step_keeps_total)
qed

lemma merge_step_no_front_error:
  assumes "0 \<le> chunkOverlap ts" and "total st = units_length (currentDoc st)"
  shows "merge_step ts sep st d \<noteq> Inl FrontOfEmptyWindow"
  using assms evict_returns [OF assms(1), of "int (length d)" "currentDoc st"]
  by (auto simp: merge_step_def Let_def separator_length_def
      split: if_splits sum.splits prod.splits option.splits)

lemma merge_loop_no_front_error:
  "0 \<le> chunkOverlap ts \<Longrightarrow> total st = units_length (currentDoc st)
   \<Longrightarrow> merge_loop ts sep st ds \<noteq> Inl FrontOfEmptyWindow"
proof (induction ds arbitrary: st)
  case Nil
  then show ?case by simp
next
  case (Cons d ds)
  show ?case
  proof (cases "merge_step ts sep st d")
    case (Inl e)
    with merge_step_no_front_error [OF Cons.prems, of sep d] show ?thesis by auto
  next
    case (Inr st1)
    with Cons.prems merge_step_keeps_total [OF Cons.prems(2) Inr] Cons.IH [of st1]
    show ?thesis by simp
  qed
qed

lemma merge_init_total: "total merge_init = units_length (currentDoc merge_init)"
  by (simp add: merge_init_def)

lemma merge_step_defined_separator: "merge_step ts (Some s) st d \<noteq> Inl UndefinedSeparator"
  by (auto simp: merge_step_def Let_def separator_length_def
      split: if_splits sum.splits prod.splits dest: evict_error)

lemma merge_loop_defined_separator: "merge_loop ts (Some s) st ds \<noteq> Inl UndefinedSeparator"
proof (induction ds arbitrary: st)
  case Nil
  then show ?case by simp
next
  case (Cons d ds)
  then show ?case
    using merge_step_defined_separator [of ts s st d] by (auto split: sum.splits)
qed

text \<open>
  Claim C10. When \<open>chunkOverlap\<close> is not negative, the loop that pops the front of the window
  never reads the front of an empty window, in no iteration of \<open>mergeSplits\<close> and for any
  units and separator: the running total is the sum of the lengths of the units in the
  window, so it is 0 when the window is empty, and then both loop conditions are false.
  With a separator that is a string, \<open>mergeSplits\<close> then returns its chunks.
\<close>

theorem eviction_reads_existing_front:
  "0 \<le> chunkOverlap ts \<Longrightarrow>
     mergeSplits ts splits sep \<noteq> Inl FrontOfEmptyWindow
     \<and> (\<exists>chunks. mergeSplits ts splits (Some s) = Inr chunks)
     \<and> (\<exists>r. evict ts len (units_length w) w = Inr r)"
proof (intro conjI)
  assume ov: "0 \<le> chunkOverlap ts"
  show "mergeSplits ts splits sep \<noteq> Inl FrontOfEmptyWindow"
    using merge_loop_no_front_error [OF ov merge_init_total, of sep splits]
    by (auto simp: mergeSplits_def split: sum.splits)
  show "\<exists>chunks. mergeSplits ts splits (Some s) = Inr chunks"
  proof (cases "merge_loop ts (Some s) merge_init splits")
    case (Inl e)
    with merge_loop_error [OF Inl] merge_loop_defined_separator [of ts s merge_init splits]
      merge_loop_no_front_error [OF ov merge_init_total, of "Some s" splits]
    show ?thesis by auto
  next
    case (Inr st)
    then show ?thesis by (simp add: mergeSplits_def)
  qed
  show "\<exists>r. evict ts len (units_length w) w = Inr r"
    using ov by (rule evict_returns)
qed

theorem eviction_reads_existing_front_witness:
  "0 \<le> chunkOverlap \<lparr>chunkSize = 10, chunkOverlap = 0\<rparr>
   \<and> mergeSplits \<lparr>chunkSize = 10, chunkOverlap = 0\<rparr> [''aaaa'', ''bbbb'', ''cccc'', ''dddd'']
        (Some '' '') \<noteq> Inl FrontOfEmptyWindow
   \<and> (\<exists>chunks. mergeSplits \<lparr>chunkSize = 10, chunkOverlap = 0\<rparr>
          [''aaaa'', ''bbbb'', ''cccc'', ''dddd''] (Some '' '') = Inr chunks)
   \<and> (\<exists>r. evict \<lparr>chunkSize = 10, chunkOverlap = 0\<rparr> 4 (units_length [''aaaa'', ''bbbb''])
          [''aaaa'', ''bbbb''] = Inr r)"
  using eviction_reads_existing_front [of "\<lparr>chunkSize = 10, chunkOverlap = 0\<rparr>"
      "[''aaaa'', ''bbbb'', ''cccc'', ''dddd'']" "Some '' ''" "'' ''" 4 "[''aaaa'', ''bbbb'']"]
  by simp

text \<open>The precondition is needed, and the constructor does not establish it: a negative
  \<open>chunkOverlap\<close> is accepted, and the loop then reads past the emptied window.\<close>

lemma negative_overlap_reads_empty_window:
  "TextSplitter_constructor (Some \<lparr>chunkSize_field = Some 5, chunkOverlap_field = Some (- 1)\<rparr>)
     = Inr \<lparr>chunkSize = 5, chunkOverlap = - 1\<rparr>
   \<and> mergeSplits \<lparr>chunkSize = 5, chunkOverlap = - 1\<rparr> [''aaa'', ''bbb''] (Some '' '')
     = Inl FrontOfEmptyWindow"
  by code_simp

text \<open>
  Claim C5 says that the running total holds the lengths of the units in the window and of
  the separators between them. The test of line 123 adds the length of one separator to
  the total, and the warning of line 128 reports the total as the size of the chunk, but the
  updates of the total (lines 144 and 150) leave the separators out: after the units
  \<open>"a"\<close> and \<open>"b"\<close> with the separator \<open>" "\<close> the total is 2, and the units with
  their separator have length 3.
\<close>

theorem total_leaves_out_separators:
  "merge_loop \<lparr>chunkSize = 10, chunkOverlap = 0\<rparr> (Some '' '') merge_init [''a'', ''b'']
     = Inr \<lparr>docs = [], currentDoc = [''a'', ''b''], total = 2, warnings = []\<rparr>
   \<and> joined_length '' '' [''a'', ''b''] = 3"
  by code_simp

text \<open>What the total holds instead is the sum of the lengths of the units in the window:
  after every number of iterations of the loop over the units, after the loop that pops the
  front of the window, and after each single pop of that loop.\<close>

lemma total_is_units_length:
  "(merge_loop ts sep merge_init (take k splits) = Inr st
      \<longrightarrow> total st = units_length (currentDoc st))
   \<and> (evict ts len (units_length w) w = Inr (tot', w') \<longrightarrow> tot' = units_length w')
   \<and> evict ts len (units_length (d0 # rest)) (d0 # rest)
       = (if units_length (d0 # rest) > chunkOverlap ts
             \<or> (units_length (d0 # rest) + len > chunkSize ts \<and> units_length (d0 # rest) > 0)
          then evict ts len (units_length rest) rest
          else Inr (units_length (d0 # rest), d0 # rest))"
proof (intro conjI impI)
  show "total st = units_length (currentDoc st)"
    if "merge_loop ts sep merge_init (take k splits) = Inr st"
    using merge_loop_keeps_total [OF merge_init_total that] .
  show "tot' = units_length w'" if "evict ts len (units_length w) w = Inr (tot', w')"
    using evict_keeps_total [OF that] by simp
  show "evict ts len (units_length (d0 # rest)) (d0 # rest)
       = (if units_length (d0 # rest) > chunkOverlap ts
             \<or> (units_length (d0 # rest) + len > chunkSize ts \<and> units_length (d0 # rest) > 0)
          then evict ts len (units_length rest) rest
          else Inr (units_length (d0 # rest), d0 # rest))"
    by simp
qed

lemma total_is_units_length_example:
  "merge_loop \<lparr>chunkSize = 10, chunkOverlap = 0\<rparr> (Some '' '') merge_init
       (take 3 [''aaaa'', ''bbbb'', ''cccc'', ''dddd''])
     = Inr \<lparr>docs = [''aaaa bbbb''], currentDoc = [''cccc''], total = 4, warnings = []\<rparr>
   \<and> total \<lparr>docs = [''aaaa bbbb''], currentDoc = [''cccc''], total = 4, warnings = []\<rparr>
       = units_length [''cccc'']
   \<and> evict \<lparr>chunkSize = 10, chunkOverlap = 0\<rparr> 4 (units_length [''aaaa'', ''bbbb''])
        [''aaaa'', ''bbbb''] = Inr (0, [])
   \<and> (0::int) = units_length []"
proof -
  have l: "merge_loop \<lparr>chunkSize = 10, chunkOverlap = 0\<rparr> (Some '' '') merge_init
       (take 3 [''aaaa'', ''bbbb'', ''cccc'', ''dddd''])
     = Inr \<lparr>docs = [''aaaa bbbb''], currentDoc = [''cccc''], total = 4, warnings = []\<rparr>"
    by code_simp
  have e: "evict \<lparr>chunkSize = 10, chunkOverlap = 0\<rparr> 4 (units_length [''aaaa'', ''bbbb''])
        [''aaaa'', ''bbbb''] = Inr (0, [])"
    by code_simp
  note t = total_is_units_length [of "\<lparr>chunkSize = 10, chunkOverlap = 0\<rparr>" "Some '' ''" 3
      "[''aaaa'', ''bbbb'', ''cccc'', ''dddd'']"
      "\<lparr>docs = [''aaaa bbbb''], currentDoc = [''cccc''], total = 4, warnings = []\<rparr>"
      4 "[''aaaa'', ''bbbb'']" 0 "[]" "''aaaa''" "[''bbbb'']"]
  from t [THEN conjunct1] l
  have a: "total \<lparr>docs = [''aaaa bbbb''], currentDoc = [''cccc''], total = 4, warnings = []\<rparr>
       = units_length (currentDoc \<lparr>docs = [''aaaa bbbb''], currentDoc = [''cccc''], total = 4,
           warnings = []\<rparr>)"
    by (rule mp)
  from t [THEN conjunct2, THEN conjunct1] e have b: "(0::int) = units_length []"
    by (rule mp)
  from l a e b show ?thesis by simp
qed

subsection \<open>The chunks of the merge engine\<close>

lemma chunk_of_append: "chunk_of sep pre c \<Longrightarrow> chunk_of sep (pre @ ds) c"
  unfolding chunk_of_def sublist_def by (metis append.assoc)

lemma flush_window_chunks:
  assumes "suffix (currentDoc st) pre" and "\<forall>c\<in>set (docs st). chunk_of sep pre c"
  shows "\<forall>c\<in>set (docs (flush_window st (Some sep))). chunk_of sep pre c"
proof -
  have "chunk_of sep pre c" if "joinDocs (currentDoc st) (Some sep) = Some c" for c
  proof -
    from that have "c \<noteq> []" and "c = js_trim (js_join (currentDoc st) (Some sep))"
      by (auto simp: joinDocs_def Let_def split: if_splits)
    moreover have "sublist (currentDoc st) pre"
      using assms(1) by (rule suffix_imp_sublist)
    ultimately show ?thesis unfolding chunk_of_def by blast
  qed
  with assms(2) show ?thesis
    by (auto simp: flush_window_def split: option.splits)
qed


lemma suffix_push: "suffix w v \<Longrightarrow> suffix v pre \<Longrightarrow> suffix (w @ [d]) (pre @ [d])"
  by (auto simp: suffix_def)

lemma flush_window_warn_docs:
  "docs (flush_window (warn_oversized ts st) sep) = docs (flush_window st sep)"
  by (simp add: flush_window_def split: option.splits)

lemma merge_step_Some:
  "merge_step ts (Some sep) st d =
     (if total st + int (length d) + (if currentDoc st \<noteq> [] then int (length sep) else 0)
         > chunkSize ts
      then if currentDoc st \<noteq> []
           then (case evict ts (int (length d)) (total st) (currentDoc st) of
                   Inl e \<Rightarrow> Inl e
                 | Inr (tot, w) \<Rightarrow>
                     Inr (push_unit ((flush_window (warn_oversized ts st) (Some sep))
                            \<lparr>currentDoc := w, total := tot\<rparr>) d))
           else Inr (push_unit (warn_oversized ts st) d)
      else Inr (push_unit st d))"
  by (simp add: merge_step_def Let_def separator_length_def)

lemma merge_step_first:
  "currentDoc st = [] \<Longrightarrow>
   merge_step ts (Some sep) st d = Inr (push_unit st d)
   \<or> merge_step ts (Some sep) st d = Inr (push_unit (warn_oversized ts st) d)"
  by (simp add: merge_step_Some)

lemma merge_step_fits:
  "currentDoc st \<noteq> [] \<Longrightarrow> \<not> chunkSize ts < total st + int (length d) + int (length sep) \<Longrightarrow>
   merge_step ts (Some sep) st d = Inr (push_unit st d)"
  by (simp add: merge_step_Some)

lemma merge_step_overflow:
  "currentDoc st \<noteq> [] \<Longrightarrow> chunkSize ts < total st + int (length d) + int (length sep) \<Longrightarrow>
   merge_step ts (Some sep) st d =
     (case evict ts (int (length d)) (total st) (currentDoc st) of
        Inl e \<Rightarrow> Inl e
      | Inr (tot, w) \<Rightarrow>
          Inr (push_unit ((flush_window (warn_oversized ts st) (Some sep))
                 \<lparr>currentDoc := w, total := tot\<rparr>) d))"
  by (simp add: merge_step_Some)

lemma merge_step_window:
  assumes "total st = units_length (currentDoc st)"
    and "merge_step ts (Some sep) st d = Inr st'"
  shows "\<exists>w. suffix w (currentDoc st) \<and> currentDoc st' = w @ [d]
           \<and> (docs st' = docs st \<or> docs st' = docs (flush_window st (Some sep)))"
proof -
  consider (first) "currentDoc st = []"
    | (fits) "currentDoc st \<noteq> []"
        "\<not> chunkSize ts < total st + int (length d) + int (length sep)"
    | (overflow) "currentDoc st \<noteq> []"
        "chunkSize ts < total st + int (length d) + int (length sep)"
    by blast
  then show ?thesis
  proof cases
    case first
    from merge_step_first [OF first, of ts sep d] assms(2)
    have "st' = push_unit st d \<or> st' = push_unit (warn_oversized ts st) d"
      by auto
    then have "currentDoc st' = currentDoc st @ [d]" "docs st' = docs st"
      by (auto simp: push_unit_def)
    then show ?thesis by auto
  next
    case fits
    from merge_step_fits [OF fits] assms(2) have "st' = push_unit st d"
      by simp
    then have "currentDoc st' = currentDoc st @ [d]" "docs st' = docs st"
      by (auto simp: push_unit_def)
    then show ?thesis by auto
  next
    case overflow
    from assms(2) obtain tot w where
      ev: "evict ts (int (length d)) (total st) (currentDoc st) = Inr (tot, w)"
      and st': "st' = push_unit ((flush_window (warn_oversized ts st) (Some sep))
                   \<lparr>currentDoc := w, total := tot\<rparr>) d"
      unfolding merge_step_overflow [OF overflow]
      by (cases "evict ts (int (length d)) (total st) (currentDoc st)") auto
    from ev assms(1) have "suffix w (currentDoc st)"
      using evict_keeps_total [of ts "int (length d)" "currentDoc st" tot w] by simp
    moreover from st' have "currentDoc st' = w @ [d]"
      "docs st' = docs (flush_window (warn_oversized ts st) (Some sep))"
      by (simp_all add: push_unit_def)
    ultimately show ?thesis using flush_window_warn_docs [of ts st "Some sep"] by auto
  qed
qed

lemma merge_step_chunks:
  assumes "suffix (currentDoc st) pre" and "\<forall>c\<in>set (docs st). chunk_of sep pre c"
    and "total st = units_length (currentDoc st)"
    and "merge_step ts (Some sep) st d = Inr st'"
  shows "suffix (currentDoc st') (pre @ [d]) \<and> (\<forall>c\<in>set (docs st'). chunk_of sep (pre @ [d]) c)"
proof -
  have old: "\<forall>c\<in>set (docs st). chunk_of sep (pre @ [d]) c"
    using assms(2) chunk_of_append by blast
  have fl: "\<forall>c\<in>set (docs (flush_window st (Some sep))). chunk_of sep (pre @ [d]) c"
    using flush_window_chunks [OF assms(1,2)] chunk_of_append by blast
  from merge_step_window [OF assms(3,4)] obtain w where
    w: "suffix w (currentDoc st)" "currentDoc st' = w @ [d]"
    and d: "docs st' = docs st \<or> docs st' = docs (flush_window st (Some sep))"
    by blast
  from w assms(1) have "suffix (currentDoc st') (pre @ [d])"
    by (simp add: suffix_push)
  moreover from d old fl have "\<forall>c\<in>set (docs st'). chunk_of sep (pre @ [d]) c"
    by auto
  ultimately show ?thesis by simp
qed

lemma merge_loop_chunks:
  "suffix (currentDoc st) pre \<Longrightarrow> \<forall>c\<in>set (docs st). chunk_of sep pre c
   \<Longrightarrow> total st = units_length (currentDoc st)
   \<Longrightarrow> merge_loop ts (Some sep) st ds = Inr st'
   \<Longrightarrow> suffix (currentDoc st') (pre @ ds) \<and> (\<forall>c\<in>set (docs st'). chunk_of sep (pre @ ds) c)"
proof (induction ds arbitrary: st pre)
  case Nil
  then show ?case by simp
next
  case (Cons d ds)
  from Cons.prems(4) obtain st1 where
    step: "merge_step ts (Some sep) st d = Inr st1"
    and rest: "merge_loop ts (Some sep) st1 ds = Inr st'"
    by (auto split: sum.splits)
  note s1 = merge_step_chunks [OF Cons.prems(1,2,3) step]
  have "total st1 = units_length (currentDoc st1)"
    using merge_step_keeps_total [OF Cons.prems(3) step] .
  with Cons.IH [of st1 "pre @ [d]"] s1 rest show ?case by simp
qed

lemma mergeSplits_chunks:
  assumes "mergeSplits ts splits (Some sep) = Inr chunks"
  shows "\<forall>c\<in>set chunks. chunk_of sep splits c"
proof -
  from assms obtain st where
    loop: "merge_loop ts (Some sep) merge_init splits = Inr st"
    and chunks: "chunks = docs (flush_window st (Some sep))"
    by (auto simp: mergeSplits_def split: sum.splits)
  have "suffix (currentDoc st) ([] @ splits) \<and> (\<forall>c\<in>set (docs st). chunk_of sep ([] @ splits) c)"
    by (rule merge_loop_chunks [OF _ _ merge_init_total loop]) (simp_all add: merge_init_def)
  then show ?thesis
    unfolding chunks using flush_window_chunks [of st splits sep] by simp
qed

text \<open>
  Claim C6. For every sequence of units and every separator, each chunk that \<open>mergeSplits\<close>
  returns is the join, with the separator, of a contiguous run of the units, trimmed of white
  space at both ends, and is not the empty string; and the empty sequence of units gives no
  chunk at all.
\<close>

theorem chunks_are_trimmed_joins:
  "(mergeSplits ts splits (Some sep) = Inr chunks \<longrightarrow>
      (\<forall>c\<in>set chunks. c \<noteq> []
         \<and> (\<exists>run. sublist run splits \<and> c = js_trim (js_join run (Some sep)))))
   \<and> mergeSplits ts [] (Some sep) = Inr []"
proof (intro conjI impI)
  assume "mergeSplits ts splits (Some sep) = Inr chunks"
  then have "\<forall>c\<in>set chunks. chunk_of sep splits c"
    by (rule mergeSplits_chunks)
  then show "\<forall>c\<in>set chunks. c \<noteq> []
         \<and> (\<exists>run. sublist run splits \<and> c = js_trim (js_join run (Some sep)))"
    by (simp add: chunk_of_def)
next
  show "mergeSplits ts [] (Some sep) = Inr []"
    by (simp add: mergeSplits_def merge_init_def flush_window_def joinDocs_def js_join_def
        js_trim_def)
qed

theorem chunks_are_trimmed_joins_witness:
  "mergeSplits \<lparr>chunkSize = 10, chunkOverlap = 0\<rparr> [''aaaa'', ''bbbb'', '' '', ''cccc'', ''dddd'']
       (Some '' '') = Inr [''aaaa bbbb'', ''cccc dddd'']
   \<and> chunk_of '' '' [''aaaa'', ''bbbb'', '' '', ''cccc'', ''dddd''] ''aaaa bbbb''
   \<and> chunk_of '' '' [''aaaa'', ''bbbb'', '' '', ''cccc'', ''dddd''] ''cccc dddd''
   \<and> mergeSplits \<lparr>chunkSize = 10, chunkOverlap = 0\<rparr> [] (Some '' '') = Inr []"
proof -
  have m: "mergeSplits \<lparr>chunkSize = 10, chunkOverlap = 0\<rparr>
       [''aaaa'', ''bbbb'', '' '', ''cccc'', ''dddd''] (Some '' '')
       = Inr [''aaaa bbbb'', ''cccc dddd'']"
    by code_simp
  note t = chunks_are_trimmed_joins [of "\<lparr>chunkSize = 10, chunkOverlap = 0\<rparr>"
      "[''aaaa'', ''bbbb'', '' '', ''cccc'', ''dddd'']" "'' ''" "[''aaaa bbbb'', ''cccc dddd'']"]
  from t [THEN conjunct1] m
  have q: "\<forall>c\<in>set [''aaaa bbbb'', ''cccc dddd'']. c \<noteq> []
         \<and> (\<exists>run. sublist run [''aaaa'', ''bbbb'', '' '', ''cccc'', ''dddd'']
                \<and> c = js_trim (js_join run (Some '' '')))"
    by (rule mp)
  from q have c1: "chunk_of '' '' [''aaaa'', ''bbbb'', '' '', ''cccc'', ''dddd''] ''aaaa bbbb''"
    unfolding chunk_of_def by (rule bspec) simp
  from q have c2: "chunk_of '' '' [''aaaa'', ''bbbb'', '' '', ''cccc'', ''dddd''] ''cccc dddd''"
    unfolding chunk_of_def by (rule bspec) simp
  from m c1 c2 t [THEN conjunct2] show ?thesis
    by (intro conjI)
qed

subsection \<open>The windows of the token splitter\<close>

lemma steps_below_done: "0 < step \<Longrightarrow> d \<le> 0 \<Longrightarrow> steps_below d step = 0"
  by (simp add: steps_below_def pos_imp_zdiv_nonneg_iff)

lemma steps_below_more:
  assumes "0 < step" and "0 < d"
  shows "steps_below d step = Suc (steps_below (d - step) step)"
proof -
  have "(- d + step) div step = (- d) div step + 1"
    using assms(1) by (subst div_add_self2) simp_all
  then have "(- (d - step)) div step = (- d) div step + 1"
    by (simp add: algebra_simps)
  moreover have "(- d) div step < 0"
    using assms by (simp add: pos_imp_zdiv_neg_iff)
  ultimately show ?thesis
    by (simp add: steps_below_def nat_diff_distrib Suc_nat_eq_nat_zadd1)
qed

lemma steps_below_iff:
  "0 < step \<Longrightarrow> (k < steps_below d step) = (int k * step < d)"
proof (induction k arbitrary: d)
  case 0
  then show ?case
    by (cases "0 < d") (simp_all add: steps_below_done steps_below_more)
next
  case (Suc k)
  show ?case
  proof (cases "0 < d")
    case True
    with Suc.prems Suc.IH [of "d - step"] show ?thesis
      by (simp add: steps_below_more algebra_simps)
  next
    case False
    then have "\<not> int (Suc k) * step < d"
      using Suc.prems by (smt (verit) mult_nonneg_nonneg of_nat_0_le_iff)
    with False Suc.prems show ?thesis by (simp add: steps_below_done)
  qed
qed

lemma steps_below_ceiling:
  "steps_below d step = nat \<lceil>real_of_int d / real_of_int step\<rceil>"
  by (simp add: steps_below_def ceiling_divide_eq_div)

lemma token_while_unfold:
  assumes "0 < chunkSize ts - chunkOverlap ts" and "0 \<le> start"
  shows "token_while ts dec ids start cur (js_slice ids start (min (start + chunkSize ts) (int (length ids)))) splits
         = Some (splits @ map (\<lambda>k. dec (js_slice ids (start + int k * (chunkSize ts - chunkOverlap ts))
                   (min (start + int k * (chunkSize ts - chunkOverlap ts) + chunkSize ts) (int (length ids)))))
              [0..<steps_below (int (length ids) - start) (chunkSize ts - chunkOverlap ts)])"
  using assms(2)
proof (induction "nat (int (length ids) - start)" arbitrary: start cur splits rule: less_induct)
  case less
  let ?step = "chunkSize ts - chunkOverlap ts"
  let ?N = "int (length ids)"
  show ?case
  proof (cases "start < ?N")
    case False
    then show ?thesis
      using assms(1) by (subst token_while.simps) (simp add: steps_below_done)
  next
    case True
    let ?f = "\<lambda>s k. dec (js_slice ids (s + int k * ?step) (min (s + int k * ?step + chunkSize ts) ?N))"
    have dec: "nat (?N - (start + ?step)) < nat (?N - start)"
      using True assms(1) by linarith
    have ih: "token_while ts dec ids (start + ?step) c
                (js_slice ids (start + ?step) (min (start + ?step + chunkSize ts) ?N)) sp
              = Some (sp @ map (?f (start + ?step)) [0..<steps_below (?N - (start + ?step)) ?step])"
      for c sp
      using less.hyps [OF dec] less.prems assms(1) by simp
    have cnt: "steps_below (?N - start) ?step = Suc (steps_below (?N - (start + ?step)) ?step)"
      using steps_below_more [OF assms(1), of "?N - start"] True by (simp add: algebra_simps)
    have shift: "map (?f start) [0..<Suc n] = ?f start 0 # map (?f (start + ?step)) [0..<n]" for n
      by (simp add: map_upt_Suc algebra_simps del: upt_Suc)
    show ?thesis
      apply (subst token_while.simps)
      apply (simp only: True if_True Let_def ih cnt shift)
      apply simp
      done
  qed
qed


lemma take_drop_nths:
  "m + n \<le> length xs \<Longrightarrow> take n (drop m xs) = map (\<lambda>i. xs ! i) [m..<m + n]"
  by (rule nth_equalityI) simp_all

lemma js_slice_window:
  assumes "0 \<le> a" and "0 \<le> b" and "b \<le> int (length xs)"
  shows "js_slice xs a b = window xs a b"
proof (cases "a \<le> b")
  case True
  with assms have "nat a + nat (b - a) \<le> length xs" "nat a + nat (b - a) = nat b"
    by linarith+
  with take_drop_nths [of "nat a" "nat (b - a)" xs] True assms show ?thesis
    by (simp add: js_slice_def window_def Let_def min_def)
next
  case False
  with assms show ?thesis
    by (simp add: js_slice_def window_def Let_def min_def)
qed

lemma token_windows_eq:
  assumes "chunkOverlap ts < chunkSize ts"
  shows "token_windows ts dec ids
         = Some (map (\<lambda>k. dec (js_slice ids (int k * (chunkSize ts - chunkOverlap ts))
                   (min (int k * (chunkSize ts - chunkOverlap ts) + chunkSize ts) (int (length ids)))))
              [0..<steps_below (int (length ids)) (chunkSize ts - chunkOverlap ts)])"
  using assms token_while_unfold [of ts 0 dec ids _ "[]"]
  by (simp add: token_windows_def Let_def)

text \<open>
  Claim C8. For a configuration with \<open>chunkOverlap < chunkSize\<close> (and a \<open>chunkSize\<close> that is
  not negative), the token-window splitter returns, in this order, the decodings of the
  windows \<open>[start, min(start + chunkSize, N))\<close> of the \<open>N\<close> tokens of the text, for the starts
  \<open>k * (chunkSize - chunkOverlap)\<close>, \<open>k = 0, 1, 2, ...\<close>, exactly as long as the start is below
  \<open>N\<close>. In particular a text without tokens gives no chunk.
\<close>

theorem token_windows_sequence:
  "chunkOverlap ts < chunkSize ts \<Longrightarrow> 0 \<le> chunkSize ts \<Longrightarrow>
   (let tokenizer = getEncoding (encodingName ts);
        input_ids = encode tokenizer text (allowedSpecial ts) (disallowedSpecial ts);
        N = int (length input_ids);
        step = chunkSize ts - chunkOverlap ts
    in TokenTextSplitter_splitText getEncoding ts text
         = Some (map (\<lambda>k. decode tokenizer
                          (window input_ids (int k * step) (min (int k * step + chunkSize ts) N)))
                   [0..<steps_below N step])
       \<and> (\<forall>k. (k < steps_below N step) = (int k * step < N)))"
proof -
  assume valid: "chunkOverlap ts < chunkSize ts" and size: "0 \<le> chunkSize ts"
  let ?step = "chunkSize ts - chunkOverlap ts"
  have step: "0 < ?step" using valid by simp
  let ?tk = "getEncoding (encodingName ts)"
  let ?ids = "encode ?tk text (allowedSpecial ts) (disallowedSpecial ts)"
  have w: "js_slice ?ids (int k * ?step) (min (int k * ?step + chunkSize ts) (int (length ?ids)))
           = window ?ids (int k * ?step) (min (int k * ?step + chunkSize ts) (int (length ?ids)))"
    for k
    using step size by (intro js_slice_window) simp_all
  have "token_windows ts (decode ?tk) ?ids
        = Some (map (\<lambda>k. decode ?tk (window ?ids (int k * ?step)
                        (min (int k * ?step + chunkSize ts) (int (length ?ids)))))
                 [0..<steps_below (int (length ?ids)) ?step])"
    by (simp add: token_windows_eq [OF valid] w)
  then show ?thesis
    using steps_below_iff [OF step]
    by (simp add: TokenTextSplitter_splitText_def Let_def)
qed

theorem token_windows_sequence_witness:
  "chunkOverlap \<lparr>chunkSize = 4, chunkOverlap = 2, encodingName = ''gpt2'',
       allowedSpecial = Listed [], disallowedSpecial = All\<rparr>
     < chunkSize \<lparr>chunkSize = 4, chunkOverlap = 2, encodingName = ''gpt2'',
       allowedSpecial = Listed [], disallowedSpecial = All\<rparr>
   \<and> 0 \<le> chunkSize \<lparr>chunkSize = 4, chunkOverlap = 2, encodingName = ''gpt2'',
       allowedSpecial = Listed [], disallowedSpecial = All\<rparr>
   \<and> TokenTextSplitter_splitText code_unit_tokenizer
        \<lparr>chunkSize = 4, chunkOverlap = 2, encodingName = ''gpt2'',
         allowedSpecial = Listed [], disallowedSpecial = All\<rparr> ''abcdefghij''
      = Some (map (\<lambda>k. map char_of (window (map of_char ''abcdefghij'' :: nat list)
                 (int k * 2) (min (int k * 2 + 4) 10))) [0..<steps_below 10 2])
   \<and> map (\<lambda>k. map char_of (window (map of_char ''abcdefghij'' :: nat list)
                 (int k * 2) (min (int k * 2 + 4) 10))) [0..<steps_below 10 2]
      = [''abcd'', ''cdef'', ''efgh'', ''ghij'', ''ij'']"
proof -
  have e: "map (\<lambda>k. map char_of (window (map of_char ''abcdefghij'' :: nat list)
                 (int k * 2) (min (int k * 2 + 4) 10))) [0..<steps_below 10 2]
      = [''abcd'', ''cdef'', ''efgh'', ''ghij'', ''ij'']"
    by code_simp
  from e token_windows_sequence [of "\<lparr>chunkSize = 4, chunkOverlap = 2, encodingName = ''gpt2'',
         allowedSpecial = Listed [], disallowedSpecial = All\<rparr>" code_unit_tokenizer "''abcdefghij''"]
  show ?thesis
    by (simp add: Let_def code_unit_tokenizer_def)
qed

text \<open>The number of windows is \<open>N\<close> divided by the step, rounded up.\<close>

lemma token_windows_length:
  assumes "chunkOverlap ts < chunkSize ts"
  shows "\<exists>chunks. token_windows ts dec input_ids = Some chunks
     \<and> int (length chunks)
         = \<lceil>real (length input_ids) / real_of_int (chunkSize ts - chunkOverlap ts)\<rceil>"
proof -
  have "0 \<le> real (length input_ids) / real_of_int (chunkSize ts - chunkOverlap ts)"
    using assms by (intro divide_nonneg_pos) simp_all
  then have "0 \<le> \<lceil>real (length input_ids) / real_of_int (chunkSize ts - chunkOverlap ts)\<rceil>"
    by (simp only: zero_le_ceiling)
  then show ?thesis
    using steps_below_ceiling [of "int (length input_ids)" "chunkSize ts - chunkOverlap ts"]
    by (simp add: token_windows_eq [OF assms])
qed

text \<open>
  Claim C4, amended. For every text and every configuration with \<open>chunkOverlap < chunkSize\<close>,
  the token-window splitter returns exactly \<open>ceil(N / (chunkSize - chunkOverlap))\<close> chunks,
  \<open>N\<close> the number of tokens of the text.
\<close>

theorem token_window_count:
  "chunkOverlap ts < chunkSize ts \<Longrightarrow>
   \<exists>chunks. TokenTextSplitter_splitText getEncoding ts text = Some chunks
     \<and> int (length chunks)
         = \<lceil>real (length (encode (getEncoding (encodingName ts)) text
                    (allowedSpecial ts) (disallowedSpecial ts)))
            / real_of_int (chunkSize ts - chunkOverlap ts)\<rceil>"
  unfolding TokenTextSplitter_splitText_def Let_def by (rule token_windows_length)

theorem token_window_count_witness:
  "chunkOverlap \<lparr>chunkSize = 4, chunkOverlap = 2, encodingName = ''gpt2'',
       allowedSpecial = Listed [], disallowedSpecial = All\<rparr>
     < chunkSize \<lparr>chunkSize = 4, chunkOverlap = 2, encodingName = ''gpt2'',
       allowedSpecial = Listed [], disallowedSpecial = All\<rparr>
   \<and> (\<exists>chunks. TokenTextSplitter_splitText code_unit_tokenizer
          \<lparr>chunkSize = 4, chunkOverlap = 2, encodingName = ''gpt2'',
           allowedSpecial = Listed [], disallowedSpecial = All\<rparr> ''abcdefghij'' = Some chunks
        \<and> int (length chunks) = 5)"
  using token_window_count [of "\<lparr>chunkSize = 4, chunkOverlap = 2, encodingName = ''gpt2'',
         allowedSpecial = Listed [], disallowedSpecial = All\<rparr>" code_unit_tokenizer
      "''abcdefghij''"]
  by (simp add: code_unit_tokenizer_def)


text \<open>
  Claim C4 as stated: the number of chunks is
  \<open>ceil((N - chunkOverlap) / (chunkSize - chunkOverlap))\<close>. With 10 tokens, \<open>chunkSize = 4\<close>
  and \<open>chunkOverlap = 2\<close>, a configuration that the constructor accepts, the splitter returns
  5 chunks (the loop runs while the start is below \<open>N\<close>, so the window \<open>[8, 10)\<close> is emitted
  too), and the stated formula gives 4.
\<close>

theorem claimed_window_count_counterexample:
  "TokenTextSplitter_constructor
       (Some \<lparr>chunkSize_field = Some 4, chunkOverlap_field = Some 2, encodingName_field = None,
              allowedSpecial_field = None, disallowedSpecial_field = None\<rparr>)
     = Inr \<lparr>chunkSize = 4, chunkOverlap = 2, encodingName = ''gpt2'',
            allowedSpecial = Listed [], disallowedSpecial = All\<rparr>
   \<and> length (encode (code_unit_tokenizer ''gpt2'') ''abcdefghij'' (Listed []) All) = 10
   \<and> TokenTextSplitter_splitText code_unit_tokenizer
        \<lparr>chunkSize = 4, chunkOverlap = 2, encodingName = ''gpt2'',
         allowedSpecial = Listed [], disallowedSpecial = All\<rparr> ''abcdefghij''
      = Some [''abcd'', ''cdef'', ''efgh'', ''ghij'', ''ij'']
   \<and> claimed_window_count 10 4 2 = 4"
proof (intro conjI)
  show "TokenTextSplitter_constructor
       (Some \<lparr>chunkSize_field = Some 4, chunkOverlap_field = Some 2, encodingName_field = None,
              allowedSpecial_field = None, disallowedSpecial_field = None\<rparr>)
     = Inr \<lparr>chunkSize = 4, chunkOverlap = 2, encodingName = ''gpt2'',
            allowedSpecial = Listed [], disallowedSpecial = All\<rparr>"
    by code_simp
  show "length (encode (code_unit_tokenizer ''gpt2'') ''abcdefghij'' (Listed []) All) = 10"
    by (simp add: code_unit_tokenizer_def)
  show "TokenTextSplitter_splitText code_unit_tokenizer
        \<lparr>chunkSize = 4, chunkOverlap = 2, encodingName = ''gpt2'',
         allowedSpecial = Listed [], disallowedSpecial = All\<rparr> ''abcdefghij''
      = Some [''abcd'', ''cdef'', ''efgh'', ''ghij'', ''ij'']"
    by code_simp
  show "claimed_window_count 10 4 2 = 4"
    by (simp add: claimed_window_count_def)
qed

subsection \<open>The choice of the separator\<close>

text \<open>\<open>js_includes\<close> is containment as a contiguous run.\<close>

lemma js_includes_sublist: "js_includes t s = sublist s t"
proof (induction t)
  case Nil
  then show ?case by simp
next
  case (Cons c cs)
  have "take (length s) (c # cs) = s \<longleftrightarrow> prefix s (c # cs)"
    by (metis append_eq_conv_conj prefix_def take_is_prefix)
  with Cons show ?case
    by (cases s) (auto simp: sublist_Cons_right)
qed

lemma separator_loop_find:
  "separator_loop t initial seps =
     (case List.find (\<lambda>s. s = [] \<or> js_includes t s) seps of
        Some s \<Rightarrow> Some s
      | None \<Rightarrow> initial)"
  by (induction seps) auto

text \<open>
  Claim C7, amended. For every text and every non-empty separator list, the recursive splitter
  selects the first entry of the list that is the empty string or occurs in the text; if no
  entry is the empty string or occurs in the text, it selects the last entry of the list.
\<close>

theorem separator_selection:
  "seps \<noteq> [] \<Longrightarrow>
   select_separator seps t =
     Some (case List.find (\<lambda>s. s = [] \<or> js_includes t s) seps of
             Some s \<Rightarrow> s
           | None \<Rightarrow> last seps)"
  by (simp add: select_separator_def separator_loop_find last_entry_def split: option.splits)

theorem separator_selection_witness:
  "default_separators \<noteq> []
   \<and> select_separator default_separators ''ab cd'' = Some '' ''
   \<and> select_separator [''x'', ''y''] ''abc'' = Some ''y''"
proof -
  have "[''x'', ''y''] \<noteq> ([] :: string list)" by simp
  from separator_selection [of default_separators "''ab cd''"] separator_selection [OF this, of "''abc''"]
  show ?thesis
    by (simp add: default_separators_def)
qed


text \<open>
  Claim C7 as stated lets the last entry be selected whenever no non-empty entry occurs in
  the text. With the list \<open>["x", "", "y"]\<close> and the text \<open>"abc"\<close> no non-empty entry occurs
  in the text, and the splitter selects the empty string at the second place, not the last
  entry \<open>"y"\<close>: the loop stops at the first empty entry before the fallback is looked at.
\<close>

theorem separator_fallback_counterexample:
  "\<not> js_includes ''abc'' ''x'' \<and> \<not> js_includes ''abc'' ''y''
   \<and> select_separator [''x'', '''', ''y''] ''abc'' = Some ''''
   \<and> last [''x'', '''', ''y''] = ''y''"
  by code_simp

subsection \<open>The recursion of the separator-fallback splitter\<close>

lemma select_default_a: "select_separator default_separators ''a'' = Some ''''"
  by code_simp

lemma recursion_never_returns_step:
  assumes "splitText_depth n \<lparr>chunkSize = 1, chunkOverlap = 0, separators = default_separators\<rparr> ''a''
           = None"
  shows "splitText_depth (Suc n) \<lparr>chunkSize = 1, chunkOverlap = 0, separators = default_separators\<rparr>
           ''a'' = None"
  using assms
  by (simp add: select_default_a split_by_def js_split_def merge_good_def)

text \<open>
  Claim C3 says that the recursive splitter returns for every text when the separator list
  ends with the empty string and \<open>chunkSize\<close> is at least 1. With \<open>chunkSize = 1\<close> it does
  not: the default separators end with the empty string, the text \<open>"a"\<close> is split into the
  one unit \<open>"a"\<close>, whose length 1 is not below \<open>chunkSize\<close>, and \<open>splitText\<close> is called on
  \<open>"a"\<close> again, without end. No number of nested calls suffices.
\<close>

theorem unit_of_chunk_size_recurses_forever:
  "RecursiveCharacterTextSplitter_constructor
       (Some \<lparr>chunkSize_field = Some 1, chunkOverlap_field = Some 0, separators_field = None\<rparr>)
     = Inr \<lparr>chunkSize = 1, chunkOverlap = 0, separators = default_separators\<rparr>
   \<and> last default_separators = ''''
   \<and> (\<forall>n. splitText_depth n \<lparr>chunkSize = 1, chunkOverlap = 0, separators = default_separators\<rparr>
            ''a'' = None)"
proof (intro conjI allI)
  show "RecursiveCharacterTextSplitter_constructor
       (Some \<lparr>chunkSize_field = Some 1, chunkOverlap_field = Some 0, separators_field = None\<rparr>)
     = Inr \<lparr>chunkSize = 1, chunkOverlap = 0, separators = default_separators\<rparr>"
    by (simp add: RecursiveCharacterTextSplitter_constructor_def TextSplitter_constructor_def
        field_or_def)
  show "last default_separators = ''''"
    by (simp add: default_separators_def)
  show "splitText_depth n \<lparr>chunkSize = 1, chunkOverlap = 0, separators = default_separators\<rparr>
            ''a'' = None" for n
    by (induction n) (simp, rule recursion_never_returns_step)
qed

text \<open>A result does not depend on the number of nested calls allowed, once it is
  reached.\<close>

lemma split_units_mono:
  assumes "\<And>s r. recur s = Some r \<Longrightarrow> recur' s = Some r"
  shows "split_units recur ts sep ss good final = Some r
         \<Longrightarrow> split_units recur' ts sep ss good final = Some r"
proof (induction ss arbitrary: good final)
  case Nil
  then show ?case by simp
next
  case (Cons s ss)
  show ?case
  proof (cases "int (length s) < chunkSize ts")
    case True
    with Cons show ?thesis by simp
  next
    case False
    show ?thesis
    proof (cases "merge_good ts sep good final")
      case (Inl e)
      with False Cons.prems show ?thesis by auto
    next
      case (Inr final1)
      show ?thesis
      proof (cases "recur s")
        case None
        with False Inr Cons.prems show ?thesis by auto
      next
        case (Some res)
        then have "recur' s = Some res" by (rule assms)
        with Some False Inr Cons.prems Cons.IH show ?thesis
          by (cases res) auto
      qed
    qed
  qed
qed

lemma splitText_depth_Suc:
  "splitText_depth n ts t = Some r \<Longrightarrow> splitText_depth (Suc n) ts t = Some r"
proof (induction n arbitrary: t r)
  case 0
  then show ?case by simp
next
  case (Suc n)
  from Suc.prems show ?case
    by (simp add: Let_def) (erule split_units_mono [rotated], erule Suc.IH)
qed

lemma splitText_depth_mono:
  "splitText_depth n ts t = Some r \<Longrightarrow> n \<le> m \<Longrightarrow> splitText_depth m ts t = Some r"
proof (induction m)
  case 0
  then show ?case by simp
next
  case (Suc m)
  show ?case
  proof (cases "n = Suc m")
    case True
    with Suc.prems show ?thesis by simp
  next
    case False
    with Suc.prems have "n \<le> m" by simp
    with Suc.IH Suc.prems(1) have "splitText_depth m ts t = Some r" by simp
    then show ?thesis by (rule splitText_depth_Suc)
  qed
qed

lemma split_units_returns:
  "(\<And>s. s \<in> set ss \<Longrightarrow> \<not> int (length s) < chunkSize ts \<Longrightarrow> \<exists>r. recur s = Some r)
   \<Longrightarrow> \<exists>r. split_units recur ts sep ss good final = Some r"
proof (induction ss arbitrary: good final)
  case Nil
  then show ?case by simp
next
  case (Cons s ss)
  have rest: "\<exists>r. split_units recur ts sep ss g f = Some r" for g f
    using Cons.prems by (intro Cons.IH) simp_all
  show ?case
  proof (cases "int (length s) < chunkSize ts")
    case True
    with rest show ?thesis by simp
  next
    case False
    with Cons.prems [of s] obtain res where res: "recur s = Some res" by auto
    show ?thesis
    proof (cases "merge_good ts sep good final")
      case (Inl e)
      with False show ?thesis by simp
    next
      case (Inr final1)
      with False res rest show ?thesis by (cases res) simp_all
    qed
  qed
qed


text \<open>The pieces of \<open>split\<close> on a non-empty separator are parts of the text and do not
  contain the separator.\<close>

lemma take_eq_prefix: "take (length s) t = s \<longleftrightarrow> prefix s t"
  by (metis append_eq_conv_conj prefix_def take_is_prefix)

lemma js_split_on_pieces:
  "sep \<noteq> [] \<Longrightarrow> (\<And>u v. piece = u @ v \<Longrightarrow> v \<noteq> [] \<Longrightarrow> \<not> prefix sep (v @ s))
   \<Longrightarrow> p \<in> set (js_split_on sep piece s)
   \<Longrightarrow> \<not> sublist sep p \<and> sublist p (piece @ s)"
proof (induction sep piece s rule: js_split_on.induct)
  case (1 sep piece)
  have "\<not> sublist sep piece"
  proof
    assume "sublist sep piece"
    then obtain a b where "piece = a @ sep @ b" by (auto simp: sublist_def)
    with "1.prems"(2) [of a "sep @ b"] "1.prems"(1) show False by auto
  qed
  with "1.prems"(3) show ?case by simp
next
  case (2 sep piece c cs)
  note nonempty = "2.prems"(1)
  have piece: "\<not> sublist sep piece"
  proof
    assume "sublist sep piece"
    then obtain a b where "piece = a @ sep @ b" by (auto simp: sublist_def)
    with "2.prems"(2) [of a "sep @ b"] nonempty show False by auto
  qed
  show ?case
  proof (cases "sep \<noteq> [] \<and> take (length sep) (c # cs) = sep")
    case True
    with "2.prems"(3) consider "p = piece"
      | "p \<in> set (js_split_on sep [] (drop (length sep) (c # cs)))"
      by auto
    then show ?thesis
    proof cases
      case 1
      with piece show ?thesis by simp
    next
      case 2
      with "2.IH"(1) [OF True nonempty] have "\<not> sublist sep p"
        and "sublist p (drop (length sep) (c # cs))"
        by simp_all
      moreover have "sublist (drop (length sep) (c # cs)) (piece @ c # cs)"
        by (meson sublist_order.order.trans suffix_drop suffix_imp_sublist sublist_appendI
            sublist_append_leftI)
      ultimately show ?thesis by (meson sublist_order.order.trans)
    qed
  next
    case False
    have inv: "\<not> prefix sep (v @ cs)" if "piece @ [c] = u @ v" "v \<noteq> []" for u v
    proof (cases "butlast v = []")
      case True
      with that have "v = [c]"
        by (metis append_butlast_last_id append_Nil last_appendR last_snoc)
      with False nonempty show ?thesis by (simp add: take_eq_prefix del: take_Suc_Cons)
    next
      case more: False
      from that have v: "v = butlast v @ [c]"
        by (metis append_butlast_last_id last_appendR last_snoc)
      with that have "piece = u @ butlast v"
        by (metis append_assoc butlast_snoc)
      from "2.prems"(2) [OF this more] v show ?thesis
        by (metis append_Cons append_Nil append_assoc)
    qed
    from False "2.prems"(3) have "p \<in> set (js_split_on sep (piece @ [c]) cs)"
      by auto
    with "2.IH"(2) [OF False nonempty inv] show ?thesis by simp
  qed
qed

lemma js_split_pieces:
  assumes "sep \<noteq> []" and "p \<in> set (js_split t sep)"
  shows "\<not> js_includes p sep \<and> sublist p t"
  using js_split_on_pieces [OF assms(1), of "[]" t p] assms
  by (simp add: js_split_def js_includes_sublist)

lemma dropWhile_stronger:
  assumes "\<And>y. y \<in> set xs \<Longrightarrow> P y \<Longrightarrow> Q y" and "dropWhile P xs = x # rest" and "Q x"
  shows "length (dropWhile Q xs) \<le> length rest"
proof -
  have xs: "xs = takeWhile P xs @ x # rest"
    using assms(2) by (metis takeWhile_dropWhile_id)
  have "\<And>y. y \<in> set (takeWhile P xs) \<Longrightarrow> Q y"
    using assms(1) by (meson set_takeWhileD)
  then have "dropWhile Q (takeWhile P xs @ x # rest) = dropWhile Q (x # rest)"
    by (rule dropWhile_append2)
  with xs assms(3) have "dropWhile Q xs = dropWhile Q rest"
    by (metis dropWhile.simps(2))
  then show ?thesis by (simp add: length_dropWhile_le)
qed

lemma separator_loop_dropWhile:
  "separator_loop t initial seps =
     (case dropWhile (unmatched t) seps of [] \<Rightarrow> initial | s # rest \<Rightarrow> Some s)"
  by (induction seps) (auto simp: unmatched_def)


text \<open>With \<open>chunkSize\<close> at least 2 the recursion is bounded as claim C3 says: every nested
  call selects a separator further down the list, and the units of the split into code
  units are shorter than \<open>chunkSize\<close>. The nesting never exceeds the length of the
  separator list.\<close>

lemma last_stops_loop:
  assumes "seps \<noteq> []" and "last seps = []"
  shows "dropWhile (unmatched t) seps \<noteq> []"
proof
  assume "dropWhile (unmatched t) seps = []"
  then have "\<forall>s\<in>set seps. unmatched t s" by (simp add: dropWhile_eq_Nil_conv)
  with assms(1) have "unmatched t (last seps)" by simp
  with assms(2) show False by (simp add: unmatched_def)
qed

lemma splitText_depth_returns:
  assumes "2 \<le> chunkSize ts" and "separators ts \<noteq> []" and "last (separators ts) = []"
  shows "length (dropWhile (unmatched t) (separators ts)) \<le> n
         \<Longrightarrow> \<exists>r. splitText_depth n ts t = Some r"
proof (induction n arbitrary: t)
  case 0
  with last_stops_loop [OF assms(2,3), of t] show ?case by simp
next
  case (Suc n)
  from last_stops_loop [OF assms(2,3), of t] obtain s rest where
    dw: "dropWhile (unmatched t) (separators ts) = s # rest"
    by (cases "dropWhile (unmatched t) (separators ts)") auto
  then have sel: "select_separator (separators ts) t = Some s"
    by (simp add: select_separator_def separator_loop_dropWhile)
  from dw have "\<not> unmatched t s"
    by (metis hd_dropWhile list.sel(1) list.distinct(1))
  then have s: "s = [] \<or> js_includes t s" by (auto simp: unmatched_def)
  have "\<exists>r. splitText_depth n ts p = Some r"
    if "p \<in> set (split_by t (Some s))" and "\<not> int (length p) < chunkSize ts" for p
  proof (cases "s = []")
    case True
    with that(1) have "length p = 1" by (auto simp: split_by_def js_split_def)
    with that(2) assms(1) show ?thesis by simp
  next
    case False
    with that(1) have "p \<in> set (js_split t s)" by (simp add: split_by_def)
    from js_split_pieces [OF False this] have p: "\<not> js_includes p s" "sublist p t"
      by simp_all
    have "unmatched p y" if "unmatched t y" for y
      using that p(2) by (auto simp: unmatched_def js_includes_sublist
          dest: sublist_order.order.trans)
    moreover have "unmatched p s" using False p(1) by (simp add: unmatched_def)
    ultimately have "length (dropWhile (unmatched p) (separators ts)) \<le> length rest"
      using dw by (intro dropWhile_stronger [where P = "unmatched t" and x = s]) auto
    with Suc.prems dw have "length (dropWhile (unmatched p) (separators ts)) \<le> n" by simp
    then show ?thesis by (rule Suc.IH)
  qed
  then have "\<exists>r. split_units (\<lambda>s. splitText_depth n ts s) ts (Some s) (split_by t (Some s)) [] []
              = Some r"
    by (intro split_units_returns) blast
  with sel show ?case by (simp add: Let_def)
qed

lemma recursion_depth_bounded:
  assumes "2 \<le> chunkSize ts" and "separators ts \<noteq> []" and "last (separators ts) = []"
  shows "\<exists>r. splitText_depth (length (separators ts)) ts t = Some r"
  using splitText_depth_returns [OF assms, of t "length (separators ts)"]
  by (simp add: length_dropWhile_le)

text \<open>
  Claim C2 says that every chunk of the recursive splitter is at most \<open>chunkSize\<close> long unless
  it comes from a single unit. With \<open>chunkSize = 10\<close> and the default separators, the text
  \<open>"a a a a a a"\<close> is split on \<open>" "\<close> into six units of length 1, and they are merged into
  the one chunk \<open>"a a a a a a"\<close> of length 11: the running total counts 6, and the test for
  the next unit adds one separator only.
\<close>

theorem joined_chunk_exceeds_chunk_size:
  "RecursiveCharacterTextSplitter_constructor
       (Some \<lparr>chunkSize_field = Some 10, chunkOverlap_field = Some 0, separators_field = None\<rparr>)
     = Inr \<lparr>chunkSize = 10, chunkOverlap = 0, separators = default_separators\<rparr>
   \<and> splitText_depth 1 \<lparr>chunkSize = 10, chunkOverlap = 0, separators = default_separators\<rparr>
        ''a a a a a a'' = Some (Inr [''a a a a a a''])
   \<and> js_split ''a a a a a a'' '' '' = [''a'', ''a'', ''a'', ''a'', ''a'', ''a'']
   \<and> int (length ''a a a a a a'') = 11"
  by code_simp

end
